theory Spec2Isabelle
  imports Complex_Main
begin

section \<open>The virtual scroller of scripts/virtual-scroll.js\<close>

text \<open>
  The class \<^verbatim>\<open>VirtualScroller\<close> keeps a list of items and mounts, inside a scrollable
  container, only the rows of the stored index range.  Pixel quantities and indices are
  JavaScript numbers that hold integers here (scroll offsets, client heights, indices),
  so they are \<^typ>\<open>int\<close>; \<^verbatim>\<open>Math.floor(a / b)\<close> on such values with \<open>0 < b\<close> is
  \<open>a div b\<close>, and \<^verbatim>\<open>Math.ceil(a / b)\<close> is \<open>- ((- a) div b)\<close>.  A method that can throw
  returns how it completed together with the state it leaves: what it assigned before
  the exception stays assigned.  The event listeners are not modelled (the events are
  the calls of \<^verbatim>\<open>handleScroll\<close> and \<^verbatim>\<open>handleResize\<close>), nor are \<^verbatim>\<open>searchItems\<close>,
  \<^verbatim>\<open>cleanup\<close> and the performance monitor, which only wraps \<^verbatim>\<open>render\<close> and
  \<^verbatim>\<open>handleScroll\<close>.
\<close>

subsection \<open>Values, items and views\<close>

datatype jsval = Undefined | Num int | Str string

text \<open>An item is a plain object: a list of properties, the first binding of a key wins.\<close>

type_synonym item = "(string \<times> jsval) list"

definition getProp :: "item \<Rightarrow> string \<Rightarrow> jsval" where
  "getProp obj k = (case map_of obj k of None \<Rightarrow> Undefined | Some v \<Rightarrow> v)"

text \<open>The object spread \<^verbatim>\<open>{ ...a, ...b }\<close>: the properties of \<open>b\<close> override those of \<open>a\<close>.\<close>

definition spread :: "item \<Rightarrow> item \<Rightarrow> item" where
  "spread a b = b @ a"

text \<open>
  The element \<^verbatim>\<open>createItem\<close> builds: its absolute position and the item fields it shows
  (colours, paddings, hover listeners and the date formatting are left out).
\<close>

record view =
  v_top :: int
  v_height :: int
  v_status :: jsval
  v_title :: jsval
  v_description :: jsval
  v_timestamp :: jsval

subsection \<open>The host elements and the component state\<close>

text \<open>
  \<open>clientHeight\<close> is what layout reports for the container, \<open>styleHeight\<close> the pixel
  height written to its style, \<open>scrollRequests\<close> the \<open>top\<close> of every \<^verbatim>\<open>scrollTo\<close> call
  it received, in order.
\<close>

record host_element =
  clientHeight :: int
  styleHeight :: int
  scrollRequests :: "int list"

text \<open>
  The content wrapper: \<open>extent\<close> is the pixel height written to its style (the total
  scrollable extent), \<open>children\<close> its mounted item views.
\<close>

record wrapper_element =
  extent :: int
  children :: "view list"

text \<open>
  The fields of the class, followed by the environment the methods touch:
  \<open>perfUtils\<close> tells whether \<^verbatim>\<open>window.PerformanceUtils\<close> is defined, \<open>scheduled\<close> holds the
  fragments whose append \<^verbatim>\<open>batchDOMUpdates\<close> has handed to \<^verbatim>\<open>requestAnimationFrame\<close> and
  that the next frame will run, and \<open>renderCalls\<close> counts the entries into
  \<^verbatim>\<open>render()\<close> (an observer, not a field of the source).
\<close>

record vs =
  container :: "host_element option"
  contentWrapper :: "wrapper_element option"
  data :: "item list"
  itemHeight :: int
  visibleItems :: int
  scrollTop :: int
  startIndex :: int
  endIndex :: int
  perfUtils :: bool
  scheduled :: "view list list"
  renderCalls :: nat

datatype js_error = TypeError

datatype completion = Returned | Threw js_error

subsection \<open>Construction\<close>

function decimal :: "nat \<Rightarrow> string" where
  "decimal n =
     (if n < 10 then [char_of (48 + n)]
      else decimal (n div 10) @ [char_of (48 + n mod 10)])"
  by pat_completeness auto
termination
  by (relation "measure (\<lambda>n. n)") auto

declare decimal.simps [simp del]

text \<open>
  \<^verbatim>\<open>generateData\<close>; the timestamp of each item is random in the source, so it is the
  parameter \<open>stamp\<close>.
\<close>

definition sampleItem :: "(nat \<Rightarrow> string) \<Rightarrow> nat \<Rightarrow> item" where
  "sampleItem stamp index =
     [(''id'', Num (int index + 1)),
      (''title'', Str (''Item '' @ decimal (index + 1))),
      (''description'',
         Str (''This is item number '' @ decimal (index + 1) @ '' in the virtual list'')),
      (''timestamp'', Str (stamp index)),
      (''status'',
         Str (if index mod 3 = 0 then ''active''
              else if index mod 3 = 1 then ''pending'' else ''completed''))]"

definition generateData :: "(nat \<Rightarrow> string) \<Rightarrow> item list" where
  "generateData stamp = map (sampleItem stamp) [0..<10000]"

definition setupContainer :: "vs \<Rightarrow> vs" where
  "setupContainer s =
     (case container s of
        None \<Rightarrow> s
      | Some c \<Rightarrow>
          s\<lparr>container := Some (c\<lparr>styleHeight := visibleItems s * itemHeight s\<rparr>),
            contentWrapper :=
              Some \<lparr>extent = int (length (data s)) * itemHeight s, children = []\<rparr>\<rparr>)"

subsection \<open>Rendering\<close>

text \<open>\<^verbatim>\<open>this.data[i]\<close>: \<^verbatim>\<open>undefined\<close> (here \<open>None\<close>) outside the array.\<close>

definition data_at :: "item list \<Rightarrow> int \<Rightarrow> item option" where
  "data_at xs i = (if 0 \<le> i \<and> i < int (length xs) then Some (xs ! nat i) else None)"

text \<open>
  \<^verbatim>\<open>createItem(itemData, index)\<close>: reading \<^verbatim>\<open>itemData.status\<close> of \<^verbatim>\<open>undefined\<close> throws a
  TypeError.
\<close>

definition createItem :: "vs \<Rightarrow> item option \<Rightarrow> int \<Rightarrow> js_error + view" where
  "createItem s itemData index =
     (case itemData of
        None \<Rightarrow> Inl TypeError
      | Some d \<Rightarrow>
          Inr \<lparr>v_top = index * itemHeight s, v_height = itemHeight s,
               v_status = getProp d ''status'', v_title = getProp d ''title'',
               v_description = getProp d ''description'',
               v_timestamp = getProp d ''timestamp''\<rparr>)"

text \<open>The loop of \<^verbatim>\<open>render\<close> that fills the document fragment.\<close>

function fillFragment :: "vs \<Rightarrow> int \<Rightarrow> view list \<Rightarrow> js_error + view list" where
  "fillFragment s i fragment =
     (if i < endIndex s then
        (case createItem s (data_at (data s) i) i of
           Inl e \<Rightarrow> Inl e
         | Inr v \<Rightarrow> fillFragment s (i + 1) (fragment @ [v]))
      else Inr fragment)"
  by pat_completeness auto
termination
  by (relation "measure (\<lambda>(s, i, fragment). nat (endIndex s - i))") auto

declare fillFragment.simps [simp del]

text \<open>
  \<^verbatim>\<open>batchDOMUpdates\<close>: the one of scripts/utils.js runs the append in the next animation
  frame; the fallback of \<^verbatim>\<open>render\<close> runs it at once.
\<close>

definition appendFragment :: "view list \<Rightarrow> vs \<Rightarrow> vs" where
  "appendFragment fragment s =
     (case contentWrapper s of
        None \<Rightarrow> s
      | Some w \<Rightarrow> s\<lparr>contentWrapper := Some (w\<lparr>children := children w @ fragment\<rparr>)\<rparr>)"

definition batchDOMUpdates :: "view list \<Rightarrow> vs \<Rightarrow> vs" where
  "batchDOMUpdates fragment s =
     (if perfUtils s then s\<lparr>scheduled := scheduled s @ [fragment]\<rparr>
      else appendFragment fragment s)"

text \<open>The next animation frame runs the scheduled appends in order.\<close>

definition animationFrame :: "vs \<Rightarrow> vs" where
  "animationFrame s = (fold appendFragment (scheduled s) s)\<lparr>scheduled := []\<rparr>"

definition render :: "vs \<Rightarrow> completion \<times> vs" where
  "render s =
     (let s1 = s\<lparr>renderCalls := renderCalls s + 1\<rparr> in
      case contentWrapper s1 of
        None \<Rightarrow> (Returned, s1)
      | Some w \<Rightarrow>
          (let s2 = s1\<lparr>contentWrapper := Some (w\<lparr>children := []\<rparr>)\<rparr> in
           case fillFragment s2 (startIndex s2) [] of
             Inl e \<Rightarrow> (Threw e, s2)
           | Inr fragment \<Rightarrow> (Returned, batchDOMUpdates fragment s2)))"

text \<open>
  The constructor: \<open>host\<close> is what \<^verbatim>\<open>document.getElementById('virtual-container')\<close>
  returns, \<open>utils\<close> whether \<^verbatim>\<open>window.PerformanceUtils\<close> is defined.
\<close>

definition new_VirtualScroller :: "host_element option \<Rightarrow> bool \<Rightarrow> (nat \<Rightarrow> string) \<Rightarrow> vs" where
  "new_VirtualScroller host utils stamp =
     snd (render (setupContainer
       \<lparr>container = host, contentWrapper = None, data = generateData stamp,
        itemHeight = 60, visibleItems = 10, scrollTop = 0, startIndex = 0, endIndex = 0,
        perfUtils = utils, scheduled = [], renderCalls = 0\<rparr>))"

subsection \<open>Scroll, resize and programmatic scrolling\<close>

definition handleScroll :: "vs \<Rightarrow> int \<Rightarrow> completion \<times> vs" where
  "handleScroll s x =
     (let s1 = s\<lparr>scrollTop := x\<rparr>;
          newStartIndex = x div itemHeight s1;
          newEndIndex = min (newStartIndex + visibleItems s1 + 2) (int (length (data s1)))
      in if newStartIndex \<noteq> startIndex s1 \<or> newEndIndex \<noteq> endIndex s1
         then render (s1\<lparr>startIndex := newStartIndex, endIndex := newEndIndex\<rparr>)
         else (Returned, s1))"

definition handleResize :: "vs \<Rightarrow> completion \<times> vs" where
  "handleResize s =
     (case container s of
        None \<Rightarrow> (Returned, s)
      | Some c \<Rightarrow>
          render (s\<lparr>visibleItems := - ((- clientHeight c) div itemHeight s)\<rparr>))"

definition scrollToItem :: "vs \<Rightarrow> int \<Rightarrow> completion \<times> vs" where
  "scrollToItem s index =
     (case container s of
        None \<Rightarrow> (Returned, s)
      | Some c \<Rightarrow>
          if index < 0 \<or> index \<ge> int (length (data s)) then (Returned, s)
          else (Returned,
                s\<lparr>container :=
                    Some (c\<lparr>scrollRequests := scrollRequests c @ [index * itemHeight s]\<rparr>)\<rparr>))"

subsection \<open>Statistics\<close>

text \<open>
  \<^verbatim>\<open>getScrollStats\<close> computes the percentage in JavaScript numbers, which are IEEE 754
  doubles: every operation returns the double nearest to the exact result, a tie going
  to the even mantissa.  \<open>Finite neg m p\<close> is the double \<open>m \<times> 2\<^sup>p\<close>, negative when
  \<open>neg\<close> holds (so both zeros exist), \<open>Infinite neg\<close> an infinity of that sign.
\<close>

datatype jsnumber = Finite bool nat int | Infinite bool | NaN

text \<open>The power \<open>2\<^sup>p\<close> for an integer \<open>p\<close>, and the value of a finite number.\<close>

definition pow2 :: "int \<Rightarrow> rat" where
  "pow2 p = (if 0 \<le> p then 2 ^ nat p else 1 / 2 ^ nat (- p))"

definition js_value :: "jsnumber \<Rightarrow> rat option" where
  "js_value d =
     (case d of
        Finite neg m p \<Rightarrow> Some ((if neg then - 1 else 1) * rat_of_nat m * pow2 p)
      | Infinite neg \<Rightarrow> None
      | NaN \<Rightarrow> None)"

text \<open>The number of binary digits of a natural number.\<close>

fun bitlength :: "nat \<Rightarrow> nat" where
  "bitlength n = (if n = 0 then 0 else 1 + bitlength (n div 2))"

declare bitlength.simps [simp del]

text \<open>
  The double nearest to \<open>num / den\<close> (for \<open>0 < den\<close>), with the sign \<open>neg\<close>.  \<open>e\<close> is the
  binary exponent of the quotient, \<open>p\<close> the exponent of the last of the 53 mantissa
  bits (not below that of the subnormal numbers), \<open>f\<close> and \<open>r\<close> the quotient in units of
  \<open>2\<^sup>p\<close> and its remainder, \<open>n\<close> the mantissa after rounding to nearest, ties to
  even; a result of \<open>2\<^sup>1\<^sup>0\<^sup>2\<^sup>4\<close> or more overflows to infinity.
\<close>

definition round_ratio :: "bool \<Rightarrow> nat \<Rightarrow> nat \<Rightarrow> jsnumber" where
  "round_ratio neg num den =
     (if num = 0 then Finite neg 0 0
      else
        let k = int (bitlength num) - int (bitlength den);
            e = (if (if 0 \<le> k then den * 2 ^ nat k \<le> num else den \<le> num * 2 ^ nat (- k))
                 then k else k - 1);
            p = max e (- 1022) - 52;
            n1 = (if p \<le> 0 then num * 2 ^ nat (- p) else num);
            d1 = (if p \<le> 0 then den else den * 2 ^ nat p);
            f = n1 div d1;
            r = n1 mod d1;
            n = (if 2 * r < d1 then f else if d1 < 2 * r then f + 1
                 else if even f then f else f + 1)
        in if 0 \<le> p \<and> 2 ^ 1024 \<le> n * 2 ^ nat p then Infinite neg else Finite neg n p)"

text \<open>The double nearest to \<open>num / den \<times> 2\<^sup>q\<close>.\<close>

definition round_scaled :: "bool \<Rightarrow> nat \<Rightarrow> nat \<Rightarrow> int \<Rightarrow> jsnumber" where
  "round_scaled neg num den q =
     (if 0 \<le> q then round_ratio neg (num * 2 ^ nat q) den
      else round_ratio neg num (den * 2 ^ nat (- q)))"

text \<open>An integer of the model as the JavaScript number it stands for.\<close>

definition js_number :: "int \<Rightarrow> jsnumber" where
  "js_number i = round_ratio (i < 0) (nat \<bar>i\<bar>) 1"

text \<open>The operators \<^verbatim>\<open>*\<close> and \<^verbatim>\<open>/\<close> on numbers.\<close>

fun js_times :: "jsnumber \<Rightarrow> jsnumber \<Rightarrow> jsnumber" where
  "js_times NaN b = NaN"
| "js_times a NaN = NaN"
| "js_times (Infinite s1) (Infinite s2) = Infinite (s1 \<noteq> s2)"
| "js_times (Infinite s1) (Finite s2 m2 p2) = (if m2 = 0 then NaN else Infinite (s1 \<noteq> s2))"
| "js_times (Finite s1 m1 p1) (Infinite s2) = (if m1 = 0 then NaN else Infinite (s1 \<noteq> s2))"
| "js_times (Finite s1 m1 p1) (Finite s2 m2 p2) =
     round_scaled (s1 \<noteq> s2) (m1 * m2) 1 (p1 + p2)"

fun js_over :: "jsnumber \<Rightarrow> jsnumber \<Rightarrow> jsnumber" where
  "js_over NaN b = NaN"
| "js_over a NaN = NaN"
| "js_over (Infinite s1) (Infinite s2) = NaN"
| "js_over (Infinite s1) (Finite s2 m2 p2) = Infinite (s1 \<noteq> s2)"
| "js_over (Finite s1 m1 p1) (Infinite s2) = Finite (s1 \<noteq> s2) 0 0"
| "js_over (Finite s1 m1 p1) (Finite s2 m2 p2) =
     (if m2 = 0 then (if m1 = 0 then NaN else Infinite (s1 \<noteq> s2))
      else round_scaled (s1 \<noteq> s2) m1 m2 (p1 - p2))"

record scroll_stats =
  st_totalItems :: int
  st_visibleItems :: int
  st_scrollTop :: int
  st_startIndex :: int
  st_endIndex :: int
  st_scrollPercentage :: jsnumber

definition getScrollStats :: "vs \<Rightarrow> scroll_stats" where
  "getScrollStats s =
     \<lparr>st_totalItems = int (length (data s)),
      st_visibleItems = endIndex s - startIndex s,
      st_scrollTop = scrollTop s,
      st_startIndex = startIndex s,
      st_endIndex = endIndex s,
      st_scrollPercentage =
        js_times
          (js_over (js_number (scrollTop s))
             (js_times (js_number (int (length (data s)))) (js_number (itemHeight s))))
          (js_number 100)\<rparr>"

subsection \<open>Item mutations\<close>

definition setExtent :: "vs \<Rightarrow> vs" where
  "setExtent s =
     (case contentWrapper s of
        None \<Rightarrow> s
      | Some w \<Rightarrow>
          s\<lparr>contentWrapper := Some (w\<lparr>extent := int (length (data s)) * itemHeight s\<rparr>)\<rparr>)"

definition updateItem :: "vs \<Rightarrow> int \<Rightarrow> item \<Rightarrow> completion \<times> vs" where
  "updateItem s index newData =
     (if 0 \<le> index \<and> index < int (length (data s)) then
        (let s1 = s\<lparr>data := (data s)[nat index := spread (data s ! nat index) newData]\<rparr>
         in if startIndex s1 \<le> index \<and> index < endIndex s1 then render s1
            else (Returned, s1))
      else (Returned, s))"

definition addItem :: "vs \<Rightarrow> item \<Rightarrow> completion \<times> vs" where
  "addItem s itemData =
     (let newItem = spread [(''id'', Num (int (length (data s)) + 1))] itemData;
          s1 = setExtent (s\<lparr>data := data s @ [newItem]\<rparr>)
      in if startIndex s1 \<le> int (length (data s1)) - 1 \<and>
            int (length (data s1)) - 1 < endIndex s1
         then render s1
         else (Returned, s1))"

definition removeItem :: "vs \<Rightarrow> int \<Rightarrow> completion \<times> vs" where
  "removeItem s index =
     (if 0 \<le> index \<and> index < int (length (data s)) then
        render (setExtent
          (s\<lparr>data := take (nat index) (data s) @ drop (nat index + 1) (data s)\<rparr>))
      else (Returned, s))"

subsection \<open>Reading the mounted views\<close>

text \<open>The item views mounted in the content wrapper (none without a wrapper).\<close>

definition mounted :: "vs \<Rightarrow> view list" where
  "mounted s = (case contentWrapper s of None \<Rightarrow> [] | Some w \<Rightarrow> children w)"

text \<open>The view \<^verbatim>\<open>createItem\<close> returns for the item at index \<open>i\<close> of a list that has one.\<close>

definition itemView :: "vs \<Rightarrow> int \<Rightarrow> view" where
  "itemView s i =
     \<lparr>v_top = i * itemHeight s, v_height = itemHeight s,
      v_status = getProp (data s ! nat i) ''status'',
      v_title = getProp (data s ! nat i) ''title'',
      v_description = getProp (data s ! nat i) ''description'',
      v_timestamp = getProp (data s ! nat i) ''timestamp''\<rparr>"

subsection \<open>The range invariant\<close>

text \<open>The invariant the specification states for the stored range.\<close>

definition rangeInvariant :: "vs \<Rightarrow> bool" where
  "rangeInvariant s =
     (0 \<le> startIndex s \<and> startIndex s \<le> endIndex s \<and> endIndex s \<le> int (length (data s)))"

subsection \<open>Example states\<close>

text \<open>
  The page's container (its style height is written by the constructor; layout then
  reports a client height of 600 pixels), a fixed timestamp for the generated items,
  and the component as it is constructed on the page, with scripts/utils.js loaded.
\<close>

definition pageContainer :: host_element where
  "pageContainer = \<lparr>clientHeight = 600, styleHeight = 0, scrollRequests = []\<rparr>"

definition fixedStamp :: "nat \<Rightarrow> string" where
  "fixedStamp index = ''2024-01-01T00:00:00.000Z''"

definition freshScroller :: vs where
  "freshScroller = new_VirtualScroller (Some pageContainer) True fixedStamp"

text \<open>
  The constructed component after a first scroll event near the top (stored range
  \<open>[0, 12)\<close>), and after one at the bottom of the list (offset
  \<open>10000 \<times> 60 - 600\<close>, stored range \<open>[9990, 10000)\<close>).
\<close>

definition topScroller :: vs where
  "topScroller = snd (handleScroll freshScroller 20)"

definition bottomScroller :: vs where
  "bottomScroller = snd (handleScroll freshScroller 599400)"

text \<open>The component with the range \<open>[0, 12)\<close> whose container has grown to 1200 pixels.\<close>

definition widenedScroller :: vs where
  "widenedScroller =
     topScroller\<lparr>container := Some (pageContainer\<lparr>styleHeight := 600, clientHeight := 1200\<rparr>)\<rparr>"

text \<open>
  \<open>removeFirst k\<close> is \<open>k\<close> calls \<^verbatim>\<open>removeItem(0)\<close>.  The constructed component after 9997
  of them, made before the first scroll event, and an animation frame: its list is cut
  down to the last three items and the stored range is still the constructor's
  \<open>[0, 0)\<close>.
\<close>

primrec removeFirst :: "nat \<Rightarrow> vs \<Rightarrow> vs" where
  "removeFirst 0 s = s"
| "removeFirst (Suc k) s = snd (removeItem (removeFirst k s) 0)"

definition shortScroller :: vs where
  "shortScroller = animationFrame (removeFirst 9997 freshScroller)"

section \<open>Properties\<close>

subsection \<open>What a render leaves untouched\<close>

lemma render_fields:
  "data (snd (render s)) = data s"
  "itemHeight (snd (render s)) = itemHeight s"
  "visibleItems (snd (render s)) = visibleItems s"
  "scrollTop (snd (render s)) = scrollTop s"
  "startIndex (snd (render s)) = startIndex s"
  "endIndex (snd (render s)) = endIndex s"
  "container (snd (render s)) = container s"
  "perfUtils (snd (render s)) = perfUtils s"
  by (simp_all add: render_def Let_def batchDOMUpdates_def appendFragment_def
      split: option.split sum.split)

lemma render_counts: "renderCalls (snd (render s)) = renderCalls s + 1"
  by (simp add: render_def Let_def batchDOMUpdates_def appendFragment_def
      split: option.split sum.split)

lemma render_wrapper_extent:
  "map_option extent (contentWrapper (snd (render s))) = map_option extent (contentWrapper s)"
  by (simp add: render_def Let_def batchDOMUpdates_def appendFragment_def
      split: option.split sum.split)

subsection \<open>The loop that fills the fragment\<close>

lemma fillFragment_throws:
  "i \<le> j \<Longrightarrow> j < endIndex s \<Longrightarrow> data_at (data s) j = None \<Longrightarrow>
   fillFragment s i fragment = Inl TypeError"
proof (induction s i fragment rule: fillFragment.induct)
  case (1 s i fragment)
  show ?case
  proof (cases "data_at (data s) i")
    case None
    with 1(2,3) show ?thesis
      by (subst fillFragment.simps) (simp add: createItem_def)
  next
    case (Some d)
    with 1(4) have "i \<noteq> j" by auto
    with 1(2) have "i + 1 \<le> j" by simp
    with 1 Some show ?thesis
      by (subst fillFragment.simps) (simp add: createItem_def)
  qed
qed

lemma fillFragment_inside:
  "0 \<le> i \<Longrightarrow> endIndex s \<le> int (length (data s)) \<Longrightarrow>
   fillFragment s i fragment = Inr (fragment @ map (itemView s) [i..endIndex s - 1])"
proof (induction s i fragment rule: fillFragment.induct)
  case (1 s i fragment)
  show ?case
  proof (cases "i < endIndex s")
    case True
    with 1(2,3) have at: "data_at (data s) i = Some (data s ! nat i)"
      by (simp add: data_at_def)
    have up: "[i..endIndex s - 1] = i # [i + 1..endIndex s - 1]"
      using True by (simp add: upto_rec1)
    from 1(2) have "0 \<le> i + 1" by simp
    with True at 1(1)[of "itemView s i"] 1(3) show ?thesis
      by (subst fillFragment.simps) (simp add: createItem_def itemView_def up)
  next
    case False
    then show ?thesis
      by (subst fillFragment.simps) simp
  qed
qed

subsection \<open>When a render returns, when it throws, and what it mounts\<close>

lemma render_returns:
  assumes "0 \<le> startIndex s" and "endIndex s \<le> int (length (data s))"
  shows "fst (render s) = Returned"
proof (cases "contentWrapper s")
  case None
  then show ?thesis by (simp add: render_def Let_def)
next
  case (Some w)
  let ?s2 = "s\<lparr>renderCalls := renderCalls s + 1,
                contentWrapper := Some (w\<lparr>children := []\<rparr>)\<rparr>"
  have "fillFragment ?s2 (startIndex s) [] =
          Inr (map (itemView ?s2) [startIndex s..endIndex s - 1])"
    using assms fillFragment_inside [of "startIndex s" ?s2 "[]"] by simp
  with Some show ?thesis by (simp add: render_def Let_def)
qed

lemma render_throws:
  assumes "contentWrapper s \<noteq> None" and "startIndex s \<le> j" and "j < endIndex s"
    and "data_at (data s) j = None"
  shows "fst (render s) = Threw TypeError"
proof -
  from assms(1) obtain w where w: "contentWrapper s = Some w" by auto
  let ?s2 = "s\<lparr>renderCalls := renderCalls s + 1,
                contentWrapper := Some (w\<lparr>children := []\<rparr>)\<rparr>"
  have "fillFragment ?s2 (startIndex s) [] = Inl TypeError"
    using assms(2,3,4) fillFragment_throws [of "startIndex s" j ?s2 "[]"] by simp
  with w show ?thesis by (simp add: render_def Let_def)
qed

lemma render_mounts:
  assumes "contentWrapper s = Some w" and "0 \<le> startIndex s"
    and "endIndex s \<le> int (length (data s))" and "scheduled s = []"
  shows "mounted (animationFrame (snd (render s))) =
           map (itemView s) [startIndex s..endIndex s - 1]"
    and "scheduled (animationFrame (snd (render s))) = []"
proof -
  let ?s2 = "s\<lparr>renderCalls := renderCalls s + 1,
                contentWrapper := Some (w\<lparr>children := []\<rparr>)\<rparr>"
  have fill: "fillFragment ?s2 (startIndex s) [] =
                Inr (map (itemView s) [startIndex s..endIndex s - 1])"
    using assms(2,3) fillFragment_inside [of "startIndex s" ?s2 "[]"]
    by (simp add: itemView_def [abs_def])
  show "mounted (animationFrame (snd (render s))) =
           map (itemView s) [startIndex s..endIndex s - 1]"
    using assms(1,4) fill
    by (simp add: render_def Let_def batchDOMUpdates_def appendFragment_def
        animationFrame_def mounted_def)
  show "scheduled (animationFrame (snd (render s))) = []"
    by (simp add: animationFrame_def)
qed

lemma v_top_itemView: "v_top (itemView s i) = i * itemHeight s"
  by (simp add: itemView_def)

subsection \<open>Animation frames\<close>

lemma fold_appendFragment_fields:
  "data (fold appendFragment fs s) = data s"
  "itemHeight (fold appendFragment fs s) = itemHeight s"
  "visibleItems (fold appendFragment fs s) = visibleItems s"
  "startIndex (fold appendFragment fs s) = startIndex s"
  "endIndex (fold appendFragment fs s) = endIndex s"
  "(contentWrapper (fold appendFragment fs s) = None) = (contentWrapper s = None)"
  by (induction fs arbitrary: s; simp add: appendFragment_def split: option.split)+

lemma animationFrame_fields:
  "data (animationFrame s) = data s"
  "itemHeight (animationFrame s) = itemHeight s"
  "visibleItems (animationFrame s) = visibleItems s"
  "startIndex (animationFrame s) = startIndex s"
  "endIndex (animationFrame s) = endIndex s"
  "(contentWrapper (animationFrame s) = None) = (contentWrapper s = None)"
  "scheduled (animationFrame s) = []"
  by (simp_all add: animationFrame_def fold_appendFragment_fields)

lemma appendFragment_empty: "appendFragment [] s = s"
  by (cases "contentWrapper s") (simp_all add: appendFragment_def)

lemma fold_appendFragment_empty: "fold appendFragment (replicate n []) s = s"
  by (induction n) (simp_all add: appendFragment_empty)

subsection \<open>What the operations store\<close>

lemma handleScroll_fields:
  "data (snd (handleScroll s x)) = data s"
  "itemHeight (snd (handleScroll s x)) = itemHeight s"
  "visibleItems (snd (handleScroll s x)) = visibleItems s"
  "scrollTop (snd (handleScroll s x)) = x"
  "container (snd (handleScroll s x)) = container s"
  "startIndex (snd (handleScroll s x)) = x div itemHeight s"
  "endIndex (snd (handleScroll s x)) =
     min (x div itemHeight s + visibleItems s + 2) (int (length (data s)))"
  by (auto simp add: handleScroll_def Let_def render_fields)

lemma handleScroll_wrapper_extent:
  "map_option extent (contentWrapper (snd (handleScroll s x))) =
   map_option extent (contentWrapper s)"
  by (simp add: handleScroll_def Let_def render_wrapper_extent)

lemma handleScroll_wrapper_present:
  "(contentWrapper (snd (handleScroll s x)) = None) = (contentWrapper s = None)"
  using handleScroll_wrapper_extent [of s x]
  by (cases "contentWrapper (snd (handleScroll s x))"; cases "contentWrapper s") simp_all

lemma handleResize_present:
  "container s = Some c \<Longrightarrow>
   handleResize s = render (s\<lparr>visibleItems := - ((- clientHeight c) div itemHeight s)\<rparr>)"
  by (simp add: handleResize_def)

lemma handleResize_range:
  "startIndex (snd (handleResize s)) = startIndex s"
  "endIndex (snd (handleResize s)) = endIndex s"
  "data (snd (handleResize s)) = data s"
  by (simp_all add: handleResize_def render_fields split: option.split)

lemma setExtent_fields:
  "data (setExtent s) = data s"
  "itemHeight (setExtent s) = itemHeight s"
  "visibleItems (setExtent s) = visibleItems s"
  "scrollTop (setExtent s) = scrollTop s"
  "startIndex (setExtent s) = startIndex s"
  "endIndex (setExtent s) = endIndex s"
  "container (setExtent s) = container s"
  "renderCalls (setExtent s) = renderCalls s"
  "map_option extent (contentWrapper (setExtent s)) =
     map_option (\<lambda>w. int (length (data s)) * itemHeight s) (contentWrapper s)"
  by (simp_all add: setExtent_def split: option.split)

lemma setExtent_wrapper_present:
  "(contentWrapper (setExtent s) = None) = (contentWrapper s = None)"
  by (simp add: setExtent_def split: option.split)

lemma updateItem_renders:
  "renderCalls (snd (updateItem s i p)) =
     renderCalls s +
       (if 0 \<le> i \<and> i < int (length (data s)) \<and> startIndex s \<le> i \<and> i < endIndex s
        then 1 else 0)"
  by (simp add: updateItem_def Let_def render_counts)

lemma addItem_renders:
  "renderCalls (snd (addItem s d)) =
     renderCalls s +
       (if startIndex s \<le> int (length (data s)) \<and> int (length (data s)) < endIndex s
        then 1 else 0)"
  by (simp add: addItem_def Let_def render_counts setExtent_fields)

lemma removeItem_valid:
  assumes "0 \<le> i" and "i < int (length (data s))"
  shows "renderCalls (snd (removeItem s i)) = renderCalls s + 1"
    and "int (length (data (snd (removeItem s i)))) = int (length (data s)) - 1"
    and "map_option extent (contentWrapper (snd (removeItem s i))) =
           map_option (\<lambda>w. (int (length (data s)) - 1) * itemHeight s) (contentWrapper s)"
    and "startIndex (snd (removeItem s i)) = startIndex s"
    and "endIndex (snd (removeItem s i)) = endIndex s"
  using assms
  by (simp_all add: removeItem_def render_counts render_fields setExtent_fields
      render_wrapper_extent option.map_comp comp_def)

subsection \<open>Which operations keep the range invariant\<close>

lemma div_below:
  fixes x h n :: int
  assumes "0 < h" and "x < n * h"
  shows "x div h < n"
proof (rule ccontr)
  assume "\<not> x div h < n"
  then have "n \<le> x div h" by simp
  then have "n * h \<le> (x div h) * h"
    using assms(1) by (simp add: mult_right_mono)
  also have "\<dots> \<le> x"
    using assms(1) div_mult_mod_eq [of x h] pos_mod_sign [of h x] by linarith
  finally show False
    using assms(2) by simp
qed

lemma handleScroll_invariant:
  assumes "0 < itemHeight s" and "0 \<le> x" and "x < int (length (data s)) * itemHeight s"
    and "- 2 \<le> visibleItems s"
  shows "rangeInvariant (snd (handleScroll s x))"
proof -
  have "0 \<le> x div itemHeight s"
    using assms(1,2) by (simp add: pos_imp_zdiv_nonneg_iff)
  moreover have "x div itemHeight s < int (length (data s))"
    using assms(1,3) by (rule div_below)
  ultimately show ?thesis
    using assms(4) by (simp add: rangeInvariant_def handleScroll_fields)
qed

lemma handleResize_invariant: "rangeInvariant s \<Longrightarrow> rangeInvariant (snd (handleResize s))"
  by (simp add: rangeInvariant_def handleResize_range)

lemma scrollToItem_invariant: "rangeInvariant s \<Longrightarrow> rangeInvariant (snd (scrollToItem s i))"
  by (simp add: rangeInvariant_def scrollToItem_def split: option.split)

lemma updateItem_invariant: "rangeInvariant s \<Longrightarrow> rangeInvariant (snd (updateItem s i p))"
  by (simp add: rangeInvariant_def updateItem_def Let_def render_fields)

lemma addItem_invariant: "rangeInvariant s \<Longrightarrow> rangeInvariant (snd (addItem s d))"
  by (simp add: rangeInvariant_def addItem_def Let_def render_fields setExtent_fields)

lemma removeItem_invariant:
  assumes "rangeInvariant s" and "endIndex s < int (length (data s))"
  shows "rangeInvariant (snd (removeItem s i))"
proof (cases "0 \<le> i \<and> i < int (length (data s))")
  case True
  then show ?thesis
    using assms removeItem_valid(2,4,5) [of i s] by (simp add: rangeInvariant_def)
next
  case False
  then show ?thesis
    using assms(1) by (auto simp add: removeItem_def)
qed

lemma render_invariant_returns: "rangeInvariant s \<Longrightarrow> fst (render s) = Returned"
  by (simp add: rangeInvariant_def render_returns)

subsection \<open>The example states\<close>

lemma generateData_length: "length (generateData stamp) = 10000"
  by (simp add: generateData_def)

lemma freshScroller_fields:
  "itemHeight freshScroller = 60"
  "visibleItems freshScroller = 10"
  "scrollTop freshScroller = 0"
  "startIndex freshScroller = 0"
  "endIndex freshScroller = 0"
  "data freshScroller = generateData fixedStamp"
  "container freshScroller = Some (pageContainer\<lparr>styleHeight := 600\<rparr>)"
  "perfUtils freshScroller = True"
  "renderCalls freshScroller = 1"
  by (simp_all add: freshScroller_def new_VirtualScroller_def render_fields render_counts
      setupContainer_def)

lemma freshScroller_wrapper:
  "contentWrapper freshScroller = Some \<lparr>extent = 600000, children = []\<rparr>"
  "scheduled freshScroller = [[]]"
  by (simp_all add: freshScroller_def new_VirtualScroller_def render_def setupContainer_def
      Let_def fillFragment.simps batchDOMUpdates_def generateData_length)

lemma freshScroller_eq:
  "freshScroller =
     \<lparr>container = Some (pageContainer\<lparr>styleHeight := 600\<rparr>),
      contentWrapper = Some \<lparr>extent = 600000, children = []\<rparr>,
      data = generateData fixedStamp,
      itemHeight = 60, visibleItems = 10, scrollTop = 0, startIndex = 0, endIndex = 0,
      perfUtils = True, scheduled = [[]], renderCalls = 1\<rparr>"
  by (simp add: freshScroller_def new_VirtualScroller_def render_def setupContainer_def
      Let_def fillFragment.simps batchDOMUpdates_def generateData_length)

lemma topScroller_fields:
  "itemHeight topScroller = 60"
  "visibleItems topScroller = 10"
  "scrollTop topScroller = 20"
  "startIndex topScroller = 0"
  "endIndex topScroller = 12"
  "data topScroller = generateData fixedStamp"
  "container topScroller = Some (pageContainer\<lparr>styleHeight := 600\<rparr>)"
  "renderCalls topScroller = 2"
  by (simp_all add: topScroller_def handleScroll_fields freshScroller_fields
      generateData_length)
    (simp add: handleScroll_def Let_def freshScroller_fields render_counts
      generateData_length)

lemma bottomScroller_fields:
  "itemHeight bottomScroller = 60"
  "visibleItems bottomScroller = 10"
  "scrollTop bottomScroller = 599400"
  "startIndex bottomScroller = 9990"
  "endIndex bottomScroller = 10000"
  "data bottomScroller = generateData fixedStamp"
  "container bottomScroller = Some (pageContainer\<lparr>styleHeight := 600\<rparr>)"
  by (simp_all add: bottomScroller_def handleScroll_fields freshScroller_fields
      generateData_length)

lemma bottomScroller_reached: "fst (handleScroll freshScroller 599400) = Returned"
proof -
  let ?s1 = "freshScroller\<lparr>scrollTop := 599400, startIndex := 9990, endIndex := 10000\<rparr>"
  have "handleScroll freshScroller 599400 = render ?s1"
    by (simp add: handleScroll_def Let_def freshScroller_fields generateData_length)
  moreover have "fst (render ?s1) = Returned"
    by (rule render_returns) (simp_all add: freshScroller_fields generateData_length)
  ultimately show ?thesis
    by simp
qed

lemma removeFirst_fresh:
  "k \<le> 10000 \<Longrightarrow>
   removeFirst k freshScroller =
     \<lparr>container = Some (pageContainer\<lparr>styleHeight := 600\<rparr>),
      contentWrapper = Some \<lparr>extent = (10000 - int k) * 60, children = []\<rparr>,
      data = drop k (generateData fixedStamp),
      itemHeight = 60, visibleItems = 10, scrollTop = 0, startIndex = 0, endIndex = 0,
      perfUtils = True, scheduled = replicate (Suc k) [], renderCalls = Suc k\<rparr>"
proof (induction k)
  case 0
  then show ?case by (simp add: freshScroller_eq)
next
  case (Suc k)
  then have "k < 10000" by simp
  with Suc.IH show ?case
    by (simp add: removeItem_def setExtent_def render_def Let_def fillFragment.simps
        batchDOMUpdates_def generateData_length replicate_append_same algebra_simps)
qed

lemma shortScroller_eq:
  "shortScroller =
     \<lparr>container = Some (pageContainer\<lparr>styleHeight := 600\<rparr>),
      contentWrapper = Some \<lparr>extent = 180, children = []\<rparr>,
      data = drop 9997 (generateData fixedStamp),
      itemHeight = 60, visibleItems = 10, scrollTop = 0, startIndex = 0, endIndex = 0,
      perfUtils = True, scheduled = [], renderCalls = 9998\<rparr>"
  by (simp add: shortScroller_def removeFirst_fresh animationFrame_def
      fold_appendFragment_empty del: fold_replicate)

subsection \<open>The rounding of doubles\<close>

text \<open>
  \<open>round_ratio\<close> rounds to the nearest double, ties to even: for a quotient \<open>x\<close> with
  \<open>2\<^sup>e \<le> x < 2\<^sup>e\<^sup>+\<^sup>1\<close> the result is a multiple \<open>n \<times> 2\<^sup>p\<close> of the unit
  \<open>2\<^sup>p\<close> of that binade (\<open>p = max e (-1022) - 52\<close>), at most half a unit away from
  \<open>x\<close>, and with \<open>n\<close> even when it is exactly half a unit away.
\<close>

lemma bitlength_bounds:
  "0 < n \<Longrightarrow> 2 ^ (bitlength n - 1) \<le> n \<and> n < 2 ^ bitlength n"
proof (induction n rule: bitlength.induct)
  case (1 n)
  show ?case
  proof (cases "n div 2 = 0")
    case True
    with 1(2) have "n = 1" by (simp add: div_eq_0_iff) 
    then show ?thesis
      by (simp add: bitlength.simps [of "Suc 0"] bitlength.simps [of 0])
  next
    case False
    then have h: "2 ^ (bitlength (n div 2) - 1) \<le> n div 2" "n div 2 < 2 ^ bitlength (n div 2)"
      using 1 by simp_all
    have pos: "0 < bitlength (n div 2)"
      using False by (simp add: bitlength.simps [of "n div 2"])
    have b: "bitlength n = 1 + bitlength (n div 2)"
      using 1(2) by (simp add: bitlength.simps [of n])
    have "2 ^ (bitlength n - 1) = 2 * 2 ^ (bitlength (n div 2) - 1)"
      using pos b by (cases "bitlength (n div 2)") simp_all
    also have "\<dots> \<le> 2 * (n div 2)" using h(1) by simp
    also have "\<dots> \<le> n" by simp
    finally have lo: "2 ^ (bitlength n - 1) \<le> n" .
    have "n < 2 * (n div 2) + 2" by presburger
    also have "\<dots> \<le> 2 * 2 ^ bitlength (n div 2)" using h(2) by simp
    finally have "n < 2 ^ bitlength n" using b by simp
    with lo show ?thesis by simp
  qed
qed

lemma nearest_unit:
  fixes n1 d1 :: nat
  assumes "0 < d1"
  defines "f \<equiv> n1 div d1" and "r \<equiv> n1 mod d1"
  defines "n \<equiv> (if 2 * r < d1 then f else if d1 < 2 * r then f + 1
                 else if even f then f else f + 1)"
  shows "\<bar>rat_of_nat n - rat_of_nat n1 / rat_of_nat d1\<bar> \<le> 1 / 2"
    and "\<bar>rat_of_nat n - rat_of_nat n1 / rat_of_nat d1\<bar> = 1 / 2 \<longrightarrow> even n"
proof -
  have r: "r < d1" using assms(1) by (simp add: r_def)
  have "n1 = f * d1 + r" by (simp add: f_def r_def)
  then have q: "rat_of_nat n1 / rat_of_nat d1 = rat_of_nat f + rat_of_nat r / rat_of_nat d1"
    using assms(1) by (simp add: field_simps flip: of_nat_mult of_nat_add)
  have d: "0 < rat_of_nat d1" using assms(1) by simp
  have rd: "rat_of_nat r / rat_of_nat d1 < 1" "0 \<le> rat_of_nat r / rat_of_nat d1"
    using r d by simp_all
  consider "2 * r < d1" | "d1 < 2 * r" | "2 * r = d1" by linarith
  then have "\<bar>rat_of_nat n - rat_of_nat n1 / rat_of_nat d1\<bar> \<le> 1 / 2 \<and>
      (\<bar>rat_of_nat n - rat_of_nat n1 / rat_of_nat d1\<bar> = 1 / 2 \<longrightarrow> even n)"
  proof cases
    case 1
    then have "rat_of_nat r / rat_of_nat d1 < 1 / 2"
      using d by (simp add: field_simps flip: of_nat_mult)
    with 1 q rd show ?thesis by (simp add: n_def)
  next
    case 2
    then have "1 / 2 < rat_of_nat r / rat_of_nat d1"
      using d by (simp add: field_simps flip: of_nat_mult)
    with 2 q rd show ?thesis by (simp add: n_def)
  next
    case 3
    then have "rat_of_nat r / rat_of_nat d1 = 1 / 2"
      using d by (simp add: field_simps flip: of_nat_mult)
    with 3 q show ?thesis by (simp add: n_def)
  qed
  then show "\<bar>rat_of_nat n - rat_of_nat n1 / rat_of_nat d1\<bar> \<le> 1 / 2"
    and "\<bar>rat_of_nat n - rat_of_nat n1 / rat_of_nat d1\<bar> = 1 / 2 \<longrightarrow> even n"
    by simp_all
qed

lemma pow2_powi: "pow2 p = 2 powi p"
  by (simp add: pow2_def power_int_def inverse_eq_divide power_one_over)

lemma pow2_pos: "0 < pow2 p"
  by (simp add: pow2_powi)

lemma pow2_add: "pow2 (a + b) = pow2 a * pow2 b"
  by (simp add: pow2_powi power_int_add)

lemma pow2_nat: "rat_of_nat (2 ^ n) = pow2 (int n)"
  by (simp add: pow2_def)

lemma round_ratio_nearest:
  assumes "0 < num" and "0 < den" and "round_ratio neg num den = Finite s n p"
  shows "s = neg \<and>
         \<bar>rat_of_nat n * pow2 p - rat_of_nat num / rat_of_nat den\<bar> \<le> pow2 p / 2 \<and>
         (\<bar>rat_of_nat n * pow2 p - rat_of_nat num / rat_of_nat den\<bar> = pow2 p / 2 \<longrightarrow>
            even n)"
proof -
  define k where "k = int (bitlength num) - int (bitlength den)"
  define e where
    "e = (if (if 0 \<le> k then den * 2 ^ nat k \<le> num else den \<le> num * 2 ^ nat (- k))
          then k else k - 1)"
  define p' where "p' = max e (- 1022) - 52"
  define n1 where "n1 = (if p' \<le> 0 then num * 2 ^ nat (- p') else num)"
  define d1 where "d1 = (if p' \<le> 0 then den else den * 2 ^ nat p')"
  define n' where
    "n' = (if 2 * (n1 mod d1) < d1 then n1 div d1
           else if d1 < 2 * (n1 mod d1) then n1 div d1 + 1
           else if even (n1 div d1) then n1 div d1 else n1 div d1 + 1)"
  have rr: "round_ratio neg num den =
              (if 0 \<le> p' \<and> 2 ^ 1024 \<le> n' * 2 ^ nat p' then Infinite neg else Finite neg n' p')"
  proof -
    have "num \<noteq> 0" using assms(1) by simp
    then show ?thesis
      by (simp only: round_ratio_def Let_def k_def e_def p'_def n1_def d1_def n'_def if_False)
  qed
  from assms(3) have eqs: "s = neg" "n = n'" "p = p'"
    by (simp_all add: rr split: if_splits)
  have d1: "0 < d1"
    using assms(2) by (simp add: d1_def)
  have near: "\<bar>rat_of_nat n' - rat_of_nat n1 / rat_of_nat d1\<bar> \<le> 1 / 2"
    unfolding n'_def using nearest_unit(1) [OF d1, of n1] by simp
  have tie: "\<bar>rat_of_nat n' - rat_of_nat n1 / rat_of_nat d1\<bar> = 1 / 2 \<longrightarrow> even n'"
    unfolding n'_def using nearest_unit(2) [OF d1, of n1] by simp
  have ratio: "rat_of_nat n1 / rat_of_nat d1 = (rat_of_nat num / rat_of_nat den) / pow2 p'"
    using assms(2) by (simp add: n1_def d1_def pow2_def)
  have "rat_of_nat n' * pow2 p' - rat_of_nat num / rat_of_nat den =
          pow2 p' * (rat_of_nat n' - rat_of_nat n1 / rat_of_nat d1)"
    using pow2_pos [of p'] by (simp add: ratio field_simps)
  then have err: "\<bar>rat_of_nat n' * pow2 p' - rat_of_nat num / rat_of_nat den\<bar> =
          pow2 p' * \<bar>rat_of_nat n' - rat_of_nat n1 / rat_of_nat d1\<bar>"
    using pow2_pos [of p'] by (simp add: abs_mult)
  have "pow2 p' * \<bar>rat_of_nat n' - rat_of_nat n1 / rat_of_nat d1\<bar> \<le> pow2 p' * (1 / 2)"
    using near pow2_pos [of p'] by (simp add: mult_left_mono)
  moreover have "pow2 p' * \<bar>rat_of_nat n' - rat_of_nat n1 / rat_of_nat d1\<bar> = pow2 p' / 2 \<longrightarrow>
      even n'"
    using tie pow2_pos [of p'] by simp
  ultimately show ?thesis
    using eqs err by simp
qed


lemma bitlength_pos: "0 < n \<Longrightarrow> 0 < bitlength n"
  by (simp add: bitlength.simps [of n])

lemma bitlength_pow2:
  assumes "0 < n"
  shows "pow2 (int (bitlength n) - 1) \<le> rat_of_nat n" and "rat_of_nat n < pow2 (int (bitlength n))"
proof -
  from bitlength_bounds [OF assms]
  have lo: "2 ^ (bitlength n - 1) \<le> n" and hi: "n < 2 ^ bitlength n" by simp_all
  have "int (bitlength n) - 1 = int (bitlength n - 1)"
    using bitlength_pos [OF assms] by simp
  then have "pow2 (int (bitlength n) - 1) = rat_of_nat (2 ^ (bitlength n - 1))"
    by (simp only: pow2_nat)
  also have "\<dots> \<le> rat_of_nat n"
    using lo by (simp only: of_nat_le_iff)
  finally show "pow2 (int (bitlength n) - 1) \<le> rat_of_nat n" .
  have "rat_of_nat n < rat_of_nat (2 ^ bitlength n)"
    using hi by (simp only: of_nat_less_iff)
  then show "rat_of_nat n < pow2 (int (bitlength n))"
    by (simp only: pow2_nat)
qed

lemma round_ratio_exponent:
  assumes "0 < num" and "0 < den" and "round_ratio neg num den = Finite s n p"
  shows "\<exists>e. p = max e (- 1022) - 52 \<and>
             pow2 e \<le> rat_of_nat num / rat_of_nat den \<and>
             rat_of_nat num / rat_of_nat den < pow2 (e + 1)"
proof -
  define k where "k = int (bitlength num) - int (bitlength den)"
  define T where
    "T = (if 0 \<le> k then den * 2 ^ nat k \<le> num else den \<le> num * 2 ^ nat (- k))"
  define e where "e = (if T then k else k - 1)"
  define p' where "p' = max e (- 1022) - 52"
  define n1 where "n1 = (if p' \<le> 0 then num * 2 ^ nat (- p') else num)"
  define d1 where "d1 = (if p' \<le> 0 then den else den * 2 ^ nat p')"
  define n' where
    "n' = (if 2 * (n1 mod d1) < d1 then n1 div d1
           else if d1 < 2 * (n1 mod d1) then n1 div d1 + 1
           else if even (n1 div d1) then n1 div d1 else n1 div d1 + 1)"
  have rr: "round_ratio neg num den =
              (if 0 \<le> p' \<and> 2 ^ 1024 \<le> n' * 2 ^ nat p' then Infinite neg else Finite neg n' p')"
  proof -
    have "num \<noteq> 0" using assms(1) by simp
    then show ?thesis
      by (simp only: round_ratio_def Let_def k_def T_def e_def p'_def n1_def d1_def n'_def
          if_False)
  qed
  from assms(3) have p: "p = p'"
    by (simp add: rr split: if_splits)
  let ?x = "rat_of_nat num / rat_of_nat den"
  have dpos: "0 < rat_of_nat den" using assms(2) by simp
  note bn = bitlength_pow2 [OF assms(1)] and bd = bitlength_pow2 [OF assms(2)]
  have "rat_of_nat num < pow2 (k + 1) * pow2 (int (bitlength den) - 1)"
    using bn(2) by (simp add: k_def flip: pow2_add)
  also have "\<dots> \<le> pow2 (k + 1) * rat_of_nat den"
    using bd(1) pow2_pos [of "k + 1"] by (simp add: mult_left_mono)
  finally have upper: "?x < pow2 (k + 1)"
    using dpos by (simp add: field_simps)
  have "pow2 (k - 1) * rat_of_nat den < pow2 (k - 1) * pow2 (int (bitlength den))"
    using bd(2) pow2_pos [of "k - 1"] by simp
  also have "\<dots> = pow2 (int (bitlength num) - 1)"
    by (simp add: k_def flip: pow2_add)
  also have "\<dots> \<le> rat_of_nat num" by (rule bn(1))
  finally have lower: "pow2 (k - 1) < ?x"
    using dpos by (simp add: field_simps)
  have T: "T \<longleftrightarrow> pow2 k \<le> ?x"
  proof (cases "0 \<le> k")
    case True
    then have "T \<longleftrightarrow> rat_of_nat (den * 2 ^ nat k) \<le> rat_of_nat num"
      by (simp only: T_def if_True of_nat_le_iff)
    also have "\<dots> \<longleftrightarrow> rat_of_nat den * pow2 k \<le> rat_of_nat num"
      using True by (simp add: pow2_def)
    also have "\<dots> \<longleftrightarrow> pow2 k \<le> ?x"
      using dpos by (simp add: field_simps)
    finally show ?thesis .
  next
    case False
    then have "T \<longleftrightarrow> rat_of_nat den \<le> rat_of_nat (num * 2 ^ nat (- k))"
      by (simp only: T_def if_False of_nat_le_iff)
    also have "\<dots> \<longleftrightarrow> rat_of_nat den * pow2 k \<le> rat_of_nat num"
      using False by (simp add: pow2_def field_simps)
    also have "\<dots> \<longleftrightarrow> pow2 k \<le> ?x"
      using dpos by (simp add: field_simps)
    finally show ?thesis .
  qed
  have "pow2 e \<le> ?x \<and> ?x < pow2 (e + 1)"
  proof (cases T)
    case True
    with T upper show ?thesis by (simp add: e_def)
  next
    case False
    with T lower show ?thesis by (simp add: e_def)
  qed
  with p show ?thesis
    unfolding p'_def by blast
qed

subsection \<open>The percentage in doubles\<close>

text \<open>
  The percentage at offset 7 of the page's list: \<^verbatim>\<open>(7 / 600000) * 100\<close> is the double
  \<open>5380300354831952 \<times> 2\<^sup>-\<^sup>6\<^sup>2\<close>, printed 0.0011666666666666665, which is below the
  exact \<open>7 / 6000\<close>.  And \<^verbatim>\<open>(15 / 180) * 100\<close> is 8.333333333333332, one unit in the
  last place below the double nearest to \<open>25 / 3\<close>.
\<close>

lemma page_extent_number:
  "js_times (js_number 10000) (js_number 60) = Finite False 5153960755200000 (- 33)"
  by (simp add: js_number_def round_ratio_def round_scaled_def Let_def bitlength.simps)

lemma page_percentage_at_7:
  "js_times (js_over (js_number 7) (js_times (js_number 10000) (js_number 60))) (js_number 100) =
     Finite False 5380300354831952 (- 62)"
  by (simp add: js_number_def round_ratio_def round_scaled_def Let_def bitlength.simps)

lemma page_percentage_at_7_value:
  "js_value (Finite False 5380300354831952 (- 62)) = Some (336268772176997 / 288230376151711744)"
  "(336268772176997 :: rat) / 288230376151711744 < 7 / 6000"
  by (simp_all add: js_value_def pow2_def)

lemma percentage_rounds_twice:
  "js_times (js_over (js_number 15) (js_number 180)) (js_number 100) =
     Finite False 4691249611844266 (- 49)"
  "round_ratio False 25 3 = Finite False 4691249611844267 (- 49)"
  by (simp_all add: js_number_def round_ratio_def round_scaled_def Let_def bitlength.simps)

section \<open>The claims\<close>

text \<open>
  C1.  For a scroll offset \<open>x\<close> with \<open>0 \<le> x < N \<times> H\<close>, \<^verbatim>\<open>handleScroll(x)\<close> leaves the
  stored range at \<open>start = floor(x / H)\<close> and \<open>end = min(start + visible_count + 2, N)\<close>;
  the overscan buffer is the constant 2, and the visible count and the list are those
  of the call.
\<close>

theorem handleScroll_visible_range:
  assumes "0 < itemHeight s" and "0 \<le> x" and "x < int (length (data s)) * itemHeight s"
  shows "startIndex (snd (handleScroll s x)) = \<lfloor>real_of_int x / real_of_int (itemHeight s)\<rfloor> \<and>
         endIndex (snd (handleScroll s x)) =
           min (startIndex (snd (handleScroll s x)) + visibleItems s + 2) (int (length (data s))) \<and>
         visibleItems (snd (handleScroll s x)) = visibleItems s \<and>
         data (snd (handleScroll s x)) = data s"
  using assms by (simp add: handleScroll_fields floor_divide_of_int_eq)

theorem handleScroll_visible_range_witness:
  "0 < itemHeight freshScroller \<and> (0::int) \<le> 120 \<and>
   120 < int (length (data freshScroller)) * itemHeight freshScroller \<and>
   startIndex (snd (handleScroll freshScroller 120)) = 2 \<and>
   endIndex (snd (handleScroll freshScroller 120)) = 14"
  using handleScroll_visible_range [of freshScroller 120]
  by (simp add: freshScroller_fields generateData_length)

text \<open>
  C2.  Two calls \<^verbatim>\<open>handleScroll(x)\<close> in succession render at most once: the first call
  enters \<^verbatim>\<open>render\<close> at most once, and the second finds the stored range equal to the
  computed one, returns without rendering and leaves the state as it was.  In general a
  call whose computed range equals the stored range does not enter \<^verbatim>\<open>render\<close>.
\<close>

theorem handleScroll_twice:
  assumes "0 < itemHeight s"
  shows "handleScroll (snd (handleScroll s x)) x = (Returned, snd (handleScroll s x)) \<and>
         renderCalls (snd (handleScroll s x)) \<le> renderCalls s + 1 \<and>
         (x div itemHeight s = startIndex s \<and>
          min (x div itemHeight s + visibleItems s + 2) (int (length (data s))) = endIndex s \<longrightarrow>
            renderCalls (snd (handleScroll s x)) = renderCalls s)"
proof -
  let ?s1 = "snd (handleScroll s x)"
  have "?s1\<lparr>scrollTop := x\<rparr> = ?s1"
    using handleScroll_fields(4)[of s x] by simp
  then have "handleScroll ?s1 x = (Returned, ?s1)"
    by (simp add: handleScroll_def [of ?s1] Let_def handleScroll_fields)
  moreover have "renderCalls ?s1 \<le> renderCalls s + 1"
    by (simp add: handleScroll_def Let_def render_counts)
  moreover have "x div itemHeight s = startIndex s \<and>
      min (x div itemHeight s + visibleItems s + 2) (int (length (data s))) = endIndex s \<longrightarrow>
        renderCalls ?s1 = renderCalls s"
    by (auto simp add: handleScroll_def Let_def)
  ultimately show ?thesis by simp
qed

theorem handleScroll_twice_witness:
  "0 < itemHeight freshScroller \<and>
   renderCalls (snd (handleScroll freshScroller 120)) = 2 \<and>
   renderCalls (snd (handleScroll (snd (handleScroll freshScroller 120)) 120)) = 2 \<and>
   0 < itemHeight topScroller \<and>
   45 div itemHeight topScroller = startIndex topScroller \<and>
   min (45 div itemHeight topScroller + visibleItems topScroller + 2)
       (int (length (data topScroller))) = endIndex topScroller \<and>
   renderCalls (snd (handleScroll topScroller 45)) = renderCalls topScroller"
proof -
  have first: "renderCalls (snd (handleScroll freshScroller 120)) = 2"
    by (simp add: freshScroller_fields handleScroll_def Let_def render_counts
        generateData_length)
  show ?thesis
    using first handleScroll_twice [of freshScroller 120] handleScroll_twice [of topScroller 45]
    by (simp add: freshScroller_fields topScroller_fields generateData_length)
qed

text \<open>
  C3 (as the source has it).  \<^verbatim>\<open>updateItem\<close> enters \<^verbatim>\<open>render\<close> exactly when its index is
  a valid index inside the stored range, \<^verbatim>\<open>addItem\<close> (the only insertion, at the end of
  the list) exactly when the new last index is inside the stored range.  \<^verbatim>\<open>removeItem\<close>
  with a valid index enters \<^verbatim>\<open>render\<close> exactly once wherever the index lies, after
  writing the extent of the shortened list to the content wrapper; with an invalid
  index it changes nothing.
\<close>

theorem item_mutations_render:
  "renderCalls (snd (updateItem s i p)) =
     renderCalls s +
       (if 0 \<le> i \<and> i < int (length (data s)) \<and> startIndex s \<le> i \<and> i < endIndex s
        then 1 else 0) \<and>
   renderCalls (snd (addItem s d)) =
     renderCalls s +
       (if startIndex s \<le> int (length (data s)) \<and> int (length (data s)) < endIndex s
        then 1 else 0) \<and>
   (0 \<le> j \<and> j < int (length (data s)) \<longrightarrow>
      renderCalls (snd (removeItem s j)) = renderCalls s + 1 \<and>
      int (length (data (snd (removeItem s j)))) = int (length (data s)) - 1 \<and>
      map_option extent (contentWrapper (snd (removeItem s j))) =
        map_option (\<lambda>w. (int (length (data s)) - 1) * itemHeight s) (contentWrapper s)) \<and>
   (\<not> (0 \<le> j \<and> j < int (length (data s))) \<longrightarrow> removeItem s j = (Returned, s))"
  using updateItem_renders [of s i p] addItem_renders [of s d] removeItem_valid [of j s]
  by (simp add: removeItem_def)

theorem item_mutations_render_witness:
  "renderCalls (snd (updateItem topScroller 5 [(''status'', Str ''completed'')])) = 3 \<and>
   renderCalls (snd (updateItem topScroller 5000 [(''status'', Str ''completed'')])) = 2 \<and>
   renderCalls (snd (addItem topScroller [(''title'', Str ''New'')])) = 2 \<and>
   (0::int) \<le> 5000 \<and> 5000 < int (length (data topScroller)) \<and>
   renderCalls (snd (removeItem topScroller 5000)) = 3 \<and>
   map_option extent (contentWrapper (snd (removeItem topScroller 5000))) = Some 599940 \<and>
   \<not> (0 \<le> (10000::int) \<and> 10000 < int (length (data topScroller))) \<and>
   removeItem topScroller 10000 = (Returned, topScroller)"
  using item_mutations_render [of topScroller 5 "[(''status'', Str ''completed'')]"
      "[(''title'', Str ''New'')]" 5000]
    item_mutations_render [of topScroller 5000 "[(''status'', Str ''completed'')]"
      "[(''title'', Str ''New'')]" 10000]
    handleScroll_wrapper_extent [of freshScroller 20]
  by (auto simp add: topScroller_fields generateData_length freshScroller_wrapper
      topScroller_def [symmetric])

text \<open>
  C3 as stated fails: with the stored range \<open>[0, 12)\<close>, \<^verbatim>\<open>removeItem(5000)\<close> enters
  \<^verbatim>\<open>render\<close> although index 5000 is outside the range.
\<close>

theorem removeItem_outside_range_renders:
  "startIndex topScroller = 0 \<and> endIndex topScroller = 12 \<and>
   \<not> (startIndex topScroller \<le> 5000 \<and> 5000 < endIndex topScroller) \<and>
   renderCalls (snd (removeItem topScroller 5000)) = renderCalls topScroller + 1"
  using removeItem_valid(1) [of 5000 topScroller]
  by (simp add: topScroller_fields generateData_length)

text \<open>
  C4 (as the source has it).  Let the content wrapper exist, no append be waiting for an
  animation frame, and the stored range satisfy \<open>0 \<le> start \<le> end \<le> N\<close>.  Then
  \<^verbatim>\<open>render()\<close> returns, and once its batch is mounted (at once, or by the next animation
  frame when scripts/utils.js batches it) the mounted views are exactly one per index of
  \<open>[start, end)\<close>, the view of index \<open>i\<close> at offset \<open>i \<times> H\<close>; their number is
  \<open>end - start\<close>, which is at most \<open>N\<close>.
\<close>

theorem render_mounts_stored_range:
  assumes "contentWrapper s \<noteq> None" and "scheduled s = []"
    and "0 \<le> startIndex s" and "startIndex s \<le> endIndex s"
    and "endIndex s \<le> int (length (data s))"
  shows "fst (render s) = Returned \<and>
         mounted (animationFrame (snd (render s))) =
           map (itemView s) [startIndex s..endIndex s - 1] \<and>
         int (length (mounted (animationFrame (snd (render s))))) =
           endIndex s - startIndex s \<and>
         map v_top (mounted (animationFrame (snd (render s)))) =
           map (\<lambda>i. i * itemHeight s) [startIndex s..endIndex s - 1] \<and>
         length (mounted (animationFrame (snd (render s)))) \<le> length (data s)"
proof -
  from assms(1) obtain w where w: "contentWrapper s = Some w" by auto
  have m: "mounted (animationFrame (snd (render s))) =
             map (itemView s) [startIndex s..endIndex s - 1]"
    using w assms(3,5,2) by (rule render_mounts(1))
  have r: "fst (render s) = Returned"
    using assms(3,5) by (rule render_returns)
  have n: "int (length [startIndex s..endIndex s - 1]) = endIndex s - startIndex s"
    using assms(4) by simp
  have "length [startIndex s..endIndex s - 1] \<le> length (data s)"
    using assms(3,5) n by linarith
  with m r n show ?thesis
    by (simp add: v_top_itemView comp_def)
qed

theorem render_mounts_stored_range_witness:
  "contentWrapper (animationFrame topScroller) \<noteq> None \<and>
   scheduled (animationFrame topScroller) = [] \<and>
   0 \<le> startIndex (animationFrame topScroller) \<and>
   startIndex (animationFrame topScroller) \<le> endIndex (animationFrame topScroller) \<and>
   endIndex (animationFrame topScroller) \<le> int (length (data (animationFrame topScroller))) \<and>
   fst (render (animationFrame topScroller)) = Returned \<and>
   int (length (mounted (animationFrame (snd (render (animationFrame topScroller)))))) = 12 \<and>
   length (data (animationFrame topScroller)) = 10000"
proof -
  let ?s = "animationFrame topScroller"
  have h1: "contentWrapper ?s \<noteq> None"
    by (simp add: animationFrame_fields topScroller_def handleScroll_wrapper_present
        freshScroller_wrapper)
  have h2: "scheduled ?s = []"
    by (simp add: animationFrame_fields)
  have h3: "0 \<le> startIndex ?s" and h4: "startIndex ?s \<le> endIndex ?s"
    and h5: "endIndex ?s \<le> int (length (data ?s))"
    by (simp_all add: animationFrame_fields topScroller_fields generateData_length)
  show ?thesis
    using h1 h2 h3 h4 h5 render_mounts_stored_range [OF h1 h2 h3 h4 h5]
    by (simp add: animationFrame_fields topScroller_fields generateData_length)
qed

text \<open>
  C4 as stated fails where it says the number of mounted views never equals \<open>N\<close>: on the
  list of three items a scroll event at offset 0 stores the range \<open>[0, 3)\<close>, and the
  render mounts three views, as many as there are items.
\<close>

theorem render_mounts_whole_list:
  "fst (handleScroll shortScroller 0) = Returned \<and>
   startIndex (snd (handleScroll shortScroller 0)) = 0 \<and>
   endIndex (snd (handleScroll shortScroller 0)) = 3 \<and>
   length (mounted (animationFrame (snd (handleScroll shortScroller 0)))) = 3 \<and>
   length (data (snd (handleScroll shortScroller 0))) = 3"
proof -
  let ?s = "shortScroller\<lparr>startIndex := 0, endIndex := 3\<rparr>"
  have scroll: "handleScroll shortScroller 0 = render ?s"
    by (simp add: handleScroll_def Let_def shortScroller_eq generateData_length)
  have w: "contentWrapper ?s = Some \<lparr>extent = 180, children = []\<rparr>"
    and sch: "scheduled ?s = []"
    by (simp_all add: shortScroller_eq)
  have "fst (render ?s) = Returned"
    by (rule render_returns) (simp_all add: shortScroller_eq generateData_length)
  moreover have "mounted (animationFrame (snd (render ?s))) = map (itemView ?s) [0..2]"
    using render_mounts(1) [OF w _ _ sch] by (simp add: shortScroller_eq generateData_length)
  then have "length (mounted (animationFrame (snd (render ?s)))) = 3"
    by simp
  ultimately show ?thesis
    by (simp add: scroll render_fields) (simp add: shortScroller_eq generateData_length)
qed

text \<open>
  C5.  With the container present, every call of \<^verbatim>\<open>handleResize\<close> sets the visible count to
  \<open>ceil(clientHeight / H)\<close> and enters \<^verbatim>\<open>render\<close> exactly once, whatever the stored range
  and whether or not the height changed.
\<close>

theorem handleResize_rerenders:
  assumes "container s = Some c" and "0 < itemHeight s"
  shows "visibleItems (snd (handleResize s)) =
           \<lceil>real_of_int (clientHeight c) / real_of_int (itemHeight s)\<rceil> \<and>
         renderCalls (snd (handleResize s)) = renderCalls s + 1"
proof -
  have "\<lceil>real_of_int (clientHeight c) / real_of_int (itemHeight s)\<rceil> =
          - ((- clientHeight c) div itemHeight s)"
  proof -
    have "- (real_of_int (clientHeight c) / real_of_int (itemHeight s)) =
            real_of_int (- clientHeight c) / real_of_int (itemHeight s)"
      by simp
    then have "\<lfloor>- (real_of_int (clientHeight c) / real_of_int (itemHeight s))\<rfloor> =
                 (- clientHeight c) div itemHeight s"
      by (simp only: floor_divide_of_int_eq)
    then show ?thesis
      by (simp add: ceiling_def)
  qed
  then show ?thesis
    using assms(1) by (simp add: handleResize_present render_fields render_counts)
qed

theorem handleResize_rerenders_witness:
  "container freshScroller = Some (pageContainer\<lparr>styleHeight := 600\<rparr>) \<and>
   0 < itemHeight freshScroller \<and>
   visibleItems (snd (handleResize freshScroller)) = 10 \<and>
   renderCalls (snd (handleResize freshScroller)) = 2 \<and>
   renderCalls (snd (handleResize (snd (handleResize freshScroller)))) = 3"
  using handleResize_rerenders [of freshScroller "pageContainer\<lparr>styleHeight := 600\<rparr>"]
    handleResize_rerenders [of "snd (handleResize freshScroller)"
      "pageContainer\<lparr>styleHeight := 600\<rparr>"]
  by (simp add: freshScroller_fields pageContainer_def handleResize_present render_fields)

text \<open>
  C6.  \<^verbatim>\<open>scrollToItem(index)\<close> with \<open>index\<close> outside \<open>[0, N)\<close> returns normally and
  changes nothing; with \<open>index\<close> inside, it asks the container to scroll to exactly
  \<open>index \<times> H\<close> and changes nothing else.
\<close>

theorem scrollToItem_contract:
  "(index < 0 \<or> int (length (data s)) \<le> index \<longrightarrow> scrollToItem s index = (Returned, s)) \<and>
   (container s = Some c \<and> 0 \<le> index \<and> index < int (length (data s)) \<longrightarrow>
      scrollToItem s index =
        (Returned,
         s\<lparr>container := Some (c\<lparr>scrollRequests := scrollRequests c @ [index * itemHeight s]\<rparr>)\<rparr>))"
  by (simp add: scrollToItem_def split: option.split)

theorem scrollToItem_contract_witness:
  "((10000::int) < 0 \<or> int (length (data topScroller)) \<le> 10000) \<and>
   scrollToItem topScroller 10000 = (Returned, topScroller) \<and>
   container topScroller = Some (pageContainer\<lparr>styleHeight := 600\<rparr>) \<and>
   (0::int) \<le> 9999 \<and> 9999 < int (length (data topScroller)) \<and>
   map_option scrollRequests (container (snd (scrollToItem topScroller 9999))) = Some [599940]"
  using scrollToItem_contract [of 10000 topScroller "pageContainer\<lparr>styleHeight := 600\<rparr>"]
    scrollToItem_contract [of 9999 topScroller "pageContainer\<lparr>styleHeight := 600\<rparr>"]
  by (simp add: topScroller_fields generateData_length pageContainer_def)

text \<open>
  C7 fails on the code: \<^verbatim>\<open>handleResize\<close> renders the stored range without recomputing
  it.  On the component as constructed (stored range \<open>[0, 0)\<close>, visible count 10) a
  resize mounts nothing although the visible range is \<open>[0, 12)\<close>; and when the
  container has grown to 1200 pixels the visible count becomes 20 while the stored
  range stays \<open>[0, 12)\<close>, not \<open>[0, 22)\<close>.
\<close>

theorem handleResize_keeps_stored_range:
  "visibleItems (snd (handleResize freshScroller)) = 10 \<and>
   startIndex (snd (handleResize freshScroller)) = 0 \<and>
   endIndex (snd (handleResize freshScroller)) = 0 \<and>
   min (startIndex (snd (handleResize freshScroller)) +
        visibleItems (snd (handleResize freshScroller)) + 2)
       (int (length (data (snd (handleResize freshScroller))))) = 12 \<and>
   mounted (animationFrame (snd (handleResize freshScroller))) = [] \<and>
   visibleItems widenedScroller = 10 \<and>
   visibleItems (snd (handleResize widenedScroller)) = 20 \<and>
   startIndex (snd (handleResize widenedScroller)) = 0 \<and>
   endIndex (snd (handleResize widenedScroller)) = 12 \<and>
   min (startIndex (snd (handleResize widenedScroller)) +
        visibleItems (snd (handleResize widenedScroller)) + 2)
       (int (length (data (snd (handleResize widenedScroller))))) = 22"
proof -
  have c: "container freshScroller = Some (pageContainer\<lparr>styleHeight := 600\<rparr>)"
    by (simp add: freshScroller_fields)
  have v: "visibleItems (snd (handleResize freshScroller)) = 10"
    by (simp add: handleResize_present [OF c] render_fields freshScroller_fields
        pageContainer_def)
  have m: "mounted (animationFrame (snd (handleResize freshScroller))) = []"
    by (simp add: handleResize_present [OF c] render_def Let_def freshScroller_wrapper
        freshScroller_fields fillFragment.simps batchDOMUpdates_def animationFrame_def
        appendFragment_def mounted_def)
  have c': "container widenedScroller =
              Some (pageContainer\<lparr>styleHeight := 600, clientHeight := 1200\<rparr>)"
    by (simp add: widenedScroller_def)
  have v': "visibleItems (snd (handleResize widenedScroller)) = 20"
    by (simp add: handleResize_present [OF c'] render_fields)
      (simp add: widenedScroller_def topScroller_fields pageContainer_def)
  show ?thesis
    using v m v'
    by (simp add: handleResize_range freshScroller_fields generateData_length)
      (simp add: widenedScroller_def topScroller_fields generateData_length)
qed

text \<open>
  C8 fails on the code: with the list scrolled to its end the stored range
  \<open>[9990, 10000)\<close> satisfies \<open>0 \<le> start \<le> end \<le> N\<close>; \<^verbatim>\<open>removeItem(0)\<close> then shortens the
  list to 9999 items and leaves the stored end index at 10000, beyond the item count.
\<close>

theorem removeItem_leaves_range_past_end:
  "rangeInvariant bottomScroller \<and>
   startIndex bottomScroller = 9990 \<and> endIndex bottomScroller = 10000 \<and>
   int (length (data bottomScroller)) = 10000 \<and>
   startIndex (snd (removeItem bottomScroller 0)) = 9990 \<and>
   endIndex (snd (removeItem bottomScroller 0)) = 10000 \<and>
   int (length (data (snd (removeItem bottomScroller 0)))) = 9999 \<and>
   \<not> rangeInvariant (snd (removeItem bottomScroller 0))"
  using removeItem_valid(2,4,5) [of 0 bottomScroller]
  by (simp add: rangeInvariant_def bottomScroller_fields generateData_length)

text \<open>
  C9 fails on the code: with the list scrolled to its end (a state the scroll event
  reaches without an exception, \<open>bottomScroller_reached\<close>), the render that
  \<^verbatim>\<open>removeItem(0)\<close> starts reads \<^verbatim>\<open>this.data[9999]\<close> past the end of the shortened
  list, and the TypeError of \<^verbatim>\<open>createItem\<close> leaves \<^verbatim>\<open>removeItem\<close>.
\<close>

theorem removeItem_throws_at_list_end:
  "fst (removeItem bottomScroller 0) = Threw TypeError"
proof -
  let ?s2 = "setExtent (bottomScroller\<lparr>data :=
               take (nat 0) (data bottomScroller) @ drop (nat 0 + 1) (data bottomScroller)\<rparr>)"
  have rem: "removeItem bottomScroller 0 = render ?s2"
    by (simp add: removeItem_def bottomScroller_fields generateData_length)
  have present: "contentWrapper ?s2 \<noteq> None"
    by (simp add: setExtent_wrapper_present bottomScroller_def handleScroll_wrapper_present
        freshScroller_wrapper)
  have "fst (render ?s2) = Threw TypeError"
    using present
    by (rule render_throws [where j = 9999])
      (simp_all add: setExtent_fields bottomScroller_fields generateData_length data_at_def)
  with rem show ?thesis by simp
qed

text \<open>
  C10.  When the range computed by \<^verbatim>\<open>handleScroll(x)\<close> equals the stored one, the call only
  stores \<open>x\<close> as the scroll offset: no render, the stored range unchanged.
  \<^verbatim>\<open>getScrollStats\<close> then reports the offset \<open>x\<close>, the unchanged range, and the
  percentage \<^verbatim>\<open>(x / (N * H)) * 100\<close> as JavaScript computes it from \<open>x\<close>.
\<close>

theorem handleScroll_same_range:
  assumes "0 < itemHeight s"
    and "x div itemHeight s = startIndex s"
    and "min (x div itemHeight s + visibleItems s + 2) (int (length (data s))) = endIndex s"
  shows "handleScroll s x = (Returned, s\<lparr>scrollTop := x\<rparr>) \<and>
         renderCalls (snd (handleScroll s x)) = renderCalls s \<and>
         st_scrollTop (getScrollStats (snd (handleScroll s x))) = x \<and>
         st_startIndex (getScrollStats (snd (handleScroll s x))) = startIndex s \<and>
         st_endIndex (getScrollStats (snd (handleScroll s x))) = endIndex s \<and>
         st_scrollPercentage (getScrollStats (snd (handleScroll s x))) =
           js_times
             (js_over (js_number x)
                (js_times (js_number (int (length (data s)))) (js_number (itemHeight s))))
             (js_number 100)"
proof -
  have "handleScroll s x = (Returned, s\<lparr>scrollTop := x\<rparr>)"
    using assms(2,3) by (simp add: handleScroll_def Let_def)
  then show ?thesis
    by (simp add: getScrollStats_def)
qed

theorem handleScroll_same_range_witness:
  "0 < itemHeight topScroller \<and>
   7 div itemHeight topScroller = startIndex topScroller \<and>
   min (7 div itemHeight topScroller + visibleItems topScroller + 2)
       (int (length (data topScroller))) = endIndex topScroller \<and>
   handleScroll topScroller 7 = (Returned, topScroller\<lparr>scrollTop := 7\<rparr>) \<and>
   renderCalls (snd (handleScroll topScroller 7)) = renderCalls topScroller \<and>
   st_scrollTop (getScrollStats (snd (handleScroll topScroller 7))) = 7 \<and>
   st_startIndex (getScrollStats (snd (handleScroll topScroller 7))) = 0 \<and>
   st_endIndex (getScrollStats (snd (handleScroll topScroller 7))) = 12 \<and>
   st_scrollPercentage (getScrollStats (snd (handleScroll topScroller 7))) =
     Finite False 5380300354831952 (- 62)"
  using handleScroll_same_range [of topScroller 7]
  by (auto simp add: topScroller_fields generateData_length page_percentage_at_7)

end
